theory Spec2Isabelle
  imports Main
begin

section \<open>Python strings\<close>

text \<open>
  A Python \<^verbatim>\<open>str\<close> is a sequence of Unicode code points. The two directionality marks
  U+200E and U+200F, which the parser removes, are single code points, so a string is
  modelled as a list of code points (natural numbers), not as a list of bytes.
  \<open>str\<close> embeds an ASCII literal.
\<close>

type_synonym pystr = "nat list"

definition str :: "string \<Rightarrow> pystr" where
  "str s = map of_char s"

text \<open>
  \<^verbatim>\<open>str.strip()\<close> without argument removes leading and trailing whitespace, that is the
  code points for which \<^verbatim>\<open>str.isspace\<close> holds: U+0009..U+000D, U+001C..U+0020, U+0085,
  U+00A0, U+1680, U+2000..U+200A, U+2028, U+2029, U+202F, U+205F and U+3000.
  The marks U+200E (8206) and U+200F (8207) are not whitespace.
\<close>

definition isspace :: "nat \<Rightarrow> bool" where
  "isspace c =
     ((9 \<le> c \<and> c \<le> 13) \<or> (28 \<le> c \<and> c \<le> 32) \<or> c = 133 \<or> c = 160 \<or> c = 5760 \<or>
      (8192 \<le> c \<and> c \<le> 8202) \<or> c = 8232 \<or> c = 8233 \<or> c = 8239 \<or> c = 8287 \<or> c = 12288)"

definition lstrip :: "pystr \<Rightarrow> pystr" where
  "lstrip s = dropWhile isspace s"

definition rstrip :: "pystr \<Rightarrow> pystr" where
  "rstrip s = rev (dropWhile isspace (rev s))"

definition strip :: "pystr \<Rightarrow> pystr" where
  "strip s = rstrip (lstrip s)"

text \<open>
  \<^verbatim>\<open>sub in s\<close> on strings is substring containment; the empty string is contained in
  every string.
\<close>

fun str_in :: "pystr \<Rightarrow> pystr \<Rightarrow> bool" where
  "str_in sub [] = (sub = [])"
| "str_in sub (c # cs) = (take (length sub) (c # cs) = sub \<or> str_in sub cs)"

section \<open>The line parser\<close>

text \<open>
  In a \<^verbatim>\<open>str\<close> pattern \<^verbatim>\<open>\d\<close> matches every code point of the Unicode category Nd
  (decimal digit), not only \<^verbatim>\<open>0\<close>..\<^verbatim>\<open>9\<close>. The category is a table of the interpreter's
  Unicode database: runs of ten digits that start at the code points of \<open>nd_zeros\<close>, and the
  mathematical digits U+1D7CE..U+1D7FF (Unicode 14.0, CPython 3.11). No proof below
  depends on the contents of the table.
\<close>

definition nd_zeros :: "nat list" where
  "nd_zeros =
     [48, 1632, 1776, 1984, 2406, 2534, 2662, 2790, 2918, 3046, 3174, 3302, 3430, 3558,
      3664, 3792, 3872, 4160, 4240, 6112, 6160, 6470, 6608, 6784, 6800, 6992, 7088, 7232,
      7248, 42528, 43216, 43264, 43472, 43504, 43600, 44016, 65296, 66720, 68912, 69734,
      69872, 69942, 70096, 70384, 70736, 70864, 71248, 71360, 71472, 71904, 72016, 72784,
      73040, 73120, 92768, 92864, 93008, 123200, 123632, 125264, 130032]"

definition re_digit :: "nat \<Rightarrow> bool" where
  "re_digit c = (list_ex (\<lambda>z. z \<le> c \<and> c \<le> z + 9) nd_zeros \<or> (120782 \<le> c \<and> c \<le> 120831))"

text \<open>
  \<^verbatim>\<open>re.sub(r'[\u200e\u200f]', '', line)\<close>: every occurrence of either mark (code points
  8206 and 8207) is deleted.
\<close>

definition sub_marks :: "pystr \<Rightarrow> pystr" where
  "sub_marks line = filter (\<lambda>c. c \<noteq> 8206 \<and> c \<noteq> 8207) line"

text \<open>
  The pattern is
  \<^verbatim>\<open>^\[(\d{2}\.\d{2}\.\d{2}), (\d{2}:\d{2}:\d{2})] ([^:]+): (.+)$\<close>.
  Both timestamp groups have the shape \<^verbatim>\<open>\d{2}S\d{2}S\d{2}\<close> for a separator \<open>S\<close>.
\<close>

definition two_digits_sep :: "nat \<Rightarrow> pystr \<Rightarrow> bool" where
  "two_digits_sep sep g =
     (length g = 8 \<and> re_digit (g ! 0) \<and> re_digit (g ! 1) \<and> g ! 2 = sep \<and>
      re_digit (g ! 3) \<and> re_digit (g ! 4) \<and> g ! 5 = sep \<and>
      re_digit (g ! 6) \<and> re_digit (g ! 7))"

text \<open>
  \<open>pattern_match\<close> is \<^verbatim>\<open>pattern.match(line).groups()\<close>, with \<open>None\<close> for no match.
  The literal parts and the two timestamp groups sit at fixed offsets. The class
  \<^verbatim>\<open>[^:]\<close> matches every code point but the colon (58), newline included, and the literal
  that follows the third group starts with a colon: the group is the text before the
  first colon. The dot matches every code point but the newline (10), and \<^verbatim>\<open>$\<close> matches
  at the end of the string or before a newline that ends the string: the fourth group
  is the remaining text, less one final newline, and must hold no newline.
\<close>

definition pattern_match :: "pystr \<Rightarrow> (pystr \<times> pystr \<times> pystr \<times> pystr) option" where
  "pattern_match line =
     (let date = take 8 (drop 1 line);
          time = take 8 (drop 11 line);
          tail = drop 21 line;
          person = takeWhile (\<lambda>c. c \<noteq> 58) tail;
          after = dropWhile (\<lambda>c. c \<noteq> 58) tail;
          rest = drop 2 after;
          message = (if rest \<noteq> [] \<and> last rest = 10 then butlast rest else rest)
      in if take 1 line = [91] \<and> two_digits_sep 46 date \<and> take 2 (drop 9 line) = [44, 32] \<and>
            two_digits_sep 58 time \<and> take 2 (drop 19 line) = [93, 32] \<and>
            person \<noteq> [] \<and> take 2 after = [58, 32] \<and>
            message \<noteq> [] \<and> 10 \<notin> set message
         then Some (date, time, person, message)
         else None)"

text \<open>
  The dictionary \<^verbatim>\<open>split_chat_line\<close> returns always has the four keys
  \<^verbatim>\<open>'Date'\<close>, \<^verbatim>\<open>'Time'\<close>, \<^verbatim>\<open>'Person'\<close>, \<^verbatim>\<open>'Message'\<close>, each bound to a string or to
  \<^verbatim>\<open>None\<close>: a record of four optional strings.
\<close>

record chat_entry =
  Date :: "pystr option"
  Time :: "pystr option"
  Person :: "pystr option"
  Message :: "pystr option"

definition split_chat_line :: "pystr \<Rightarrow> chat_entry" where
  "split_chat_line line0 =
     (let line = sub_marks line0
      in case pattern_match line of
           Some (date, time, person, message) \<Rightarrow>
             \<lparr>Date = Some date, Time = Some time, Person = Some person,
              Message = Some (strip message)\<rparr>
         | None \<Rightarrow> \<lparr>Date = None, Time = None, Person = None, Message = None\<rparr>)"

section \<open>The chat store\<close>

text \<open>
  The only exception the code of the class can raise on its own data is the
  \<^verbatim>\<open>TypeError\<close> of an operation on \<^verbatim>\<open>None\<close> (\<^verbatim>\<open>None + str\<close>, \<^verbatim>\<open>str in None\<close>).
  A function that can raise returns \<open>Inl\<close> of the error.
\<close>

datatype py_error = TypeError

text \<open>The truth value of an optional string: \<^verbatim>\<open>None\<close> and the empty string are false.\<close>

definition truthy :: "pystr option \<Rightarrow> bool" where
  "truthy v = (case v of None \<Rightarrow> False | Some s \<Rightarrow> s \<noteq> [])"

subsection \<open>Construction\<close>

text \<open>
  Opening or decoding the file can fail before any line is read; the model starts from a
  file that was opened, given as the lines its iterator yields, each with its line end.
  The state of the loop of \<^verbatim>\<open>__read_messages\<close> is the list \<^verbatim>\<open>self.__chat\<close> and the variable
  \<^verbatim>\<open>current_message\<close>. A dictionary is appended to the list only when the variable is
  about to be bound to a new one, so the dictionary that \<^verbatim>\<open>+=\<close> updates is never shared
  with the list. A non-empty dictionary is true, so \<^verbatim>\<open>elif current_message\<close> tests for
  \<^verbatim>\<open>None\<close>.
\<close>

type_synonym reader_state = "chat_entry list \<times> chat_entry option"

definition read_line :: "reader_state \<Rightarrow> pystr \<Rightarrow> py_error + reader_state" where
  "read_line st raw =
     (case st of (chat, current_message) \<Rightarrow>
        let line = strip raw
        in if line = [] then Inr (chat, current_message)
           else let chat_line = split_chat_line line
                in if truthy (Date chat_line)
                   then Inr (case current_message of
                               None \<Rightarrow> chat
                             | Some cm \<Rightarrow> chat @ [cm],
                             Some chat_line)
                   else (case current_message of
                           None \<Rightarrow> Inr (chat, None)
                         | Some cm \<Rightarrow>
                             (case Message cm of
                                None \<Rightarrow> Inl TypeError
                              | Some m \<Rightarrow>
                                  Inr (chat, Some (cm\<lparr>Message := Some (m @ [10] @ line)\<rparr>)))))"

fun read_lines :: "reader_state \<Rightarrow> pystr list \<Rightarrow> py_error + reader_state" where
  "read_lines st [] = Inr st"
| "read_lines st (raw # file) =
     (case read_line st raw of Inl e \<Rightarrow> Inl e | Inr st' \<Rightarrow> read_lines st' file)"

definition read_messages :: "pystr list \<Rightarrow> py_error + chat_entry list" where
  "read_messages file =
     (case read_lines ([], None) file of
        Inl e \<Rightarrow> Inl e
      | Inr (chat, current_message) \<Rightarrow>
          Inr (case current_message of None \<Rightarrow> chat | Some cm \<Rightarrow> chat @ [cm]))"

subsection \<open>Queries\<close>

definition get_chat :: "chat_entry list \<Rightarrow> chat_entry list" where
  "get_chat chat = chat"

definition get_chat_len :: "chat_entry list \<Rightarrow> nat" where
  "get_chat_len chat = length chat"

text \<open>The result of \<^verbatim>\<open>get_persons\<close> is a list made from a set: its order is not fixed.\<close>

definition get_persons :: "chat_entry list \<Rightarrow> pystr set" where
  "get_persons chat =
     set (concat (map (\<lambda>element. case Person element of
                                   None \<Rightarrow> []
                                 | Some p \<Rightarrow> if p \<noteq> [] then [p] else []) chat))"

definition get_messages :: "chat_entry list \<Rightarrow> pystr list" where
  "get_messages chat =
     concat (map (\<lambda>element. case Message element of
                              None \<Rightarrow> []
                            | Some m \<Rightarrow> if m \<noteq> [] then [m] else []) chat)"

datatype By = By_Person | By_Date | By_Message

text \<open>
  \<^verbatim>\<open>any(filter_str in field for filter_str in filters)\<close> evaluates the test for one
  filter after the other and stops at the first that holds. With no filter the test is
  never evaluated; otherwise \<^verbatim>\<open>filter_str in None\<close> raises.
\<close>

fun any_in :: "pystr list \<Rightarrow> pystr option \<Rightarrow> py_error + bool" where
  "any_in [] field = Inr False"
| "any_in (filter_str # filters) field =
     (case field of
        None \<Rightarrow> Inl TypeError
      | Some s \<Rightarrow> if str_in filter_str s then Inr True else any_in filters field)"

text \<open>
  The list comprehension visits the entries in order; an exception at one entry ends it.
\<close>

fun filter_by :: "(chat_entry \<Rightarrow> pystr option) \<Rightarrow> pystr list \<Rightarrow> chat_entry list \<Rightarrow>
    py_error + chat_entry list" where
  "filter_by field filters [] = Inr []"
| "filter_by field filters (entry # chat) =
     (case any_in filters (field entry) of
        Inl e \<Rightarrow> Inl e
      | Inr keep \<Rightarrow>
          (case filter_by field filters chat of
             Inl e \<Rightarrow> Inl e
           | Inr filtered \<Rightarrow> Inr (if keep then entry # filtered else filtered)))"

definition get_filtered_chat :: "pystr list \<Rightarrow> By \<Rightarrow> chat_entry list \<Rightarrow>
    py_error + chat_entry list" where
  "get_filtered_chat filters by chat =
     (if by = By_Person then filter_by Person filters chat
      else if by = By_Date then filter_by Date filters chat
      else if by = By_Message then filter_by Message filters chat
      else Inr chat)"

subsection \<open>Mutations\<close>

definition remove_person :: "pystr \<Rightarrow> chat_entry list \<Rightarrow> chat_entry list" where
  "remove_person person chat = filter (\<lambda>element. Person element \<noteq> Some person) chat"

definition rename_person :: "pystr \<Rightarrow> pystr \<Rightarrow> chat_entry list \<Rightarrow> chat_entry list" where
  "rename_person person new_name chat =
     map (\<lambda>element. if Person element = Some person
                     then element\<lparr>Person := Some new_name\<rparr>
                     else element) chat"

text \<open>
  The stores a program obtains from the constructor and the two mutations.
\<close>

inductive reachable :: "chat_entry list \<Rightarrow> bool" where
  construct: "read_messages file = Inr chat \<Longrightarrow> reachable chat"
| remove: "reachable chat \<Longrightarrow> reachable (remove_person person chat)"
| rename: "reachable chat \<Longrightarrow> reachable (rename_person person new_name chat)"

subsection \<open>Sample data\<close>

definition mk_entry :: "string \<Rightarrow> string \<Rightarrow> string \<Rightarrow> string \<Rightarrow> chat_entry" where
  "mk_entry d t p m =
     \<lparr>Date = Some (str d), Time = Some (str t), Person = Some (str p), Message = Some (str m)\<rparr>"

definition absent_entry :: chat_entry where
  "absent_entry = \<lparr>Date = None, Time = None, Person = None, Message = None\<rparr>"

definition sample_chat :: "chat_entry list" where
  "sample_chat =
     [mk_entry ''01.01.23'' ''10:00:00'' ''Bob'' ''Hello'',
      mk_entry ''01.01.23'' ''10:00:05'' ''Alice'' ''Hi!'',
      mk_entry ''02.01.23'' ''09:30:00'' ''Bob'' ''Bye'']"

text \<open>
  A file of five lines: a header, a continuation line, an empty line, a continuation
  line with blanks around it, and a last header without line end.
\<close>

definition sample_file :: "pystr list" where
  "sample_file =
     [str ''[01.01.23, 10:00:00] Alice: Hello'' @ [10],
      str ''there'' @ [10],
      [10],
      str ''  friend '' @ [10],
      str ''[01.01.23, 10:00:05] Bob: Hi!'']"

definition sample_read :: "chat_entry list" where
  "sample_read =
     [\<lparr>Date = Some (str ''01.01.23''), Time = Some (str ''10:00:00''),
       Person = Some (str ''Alice''),
       Message = Some (str ''Hello'' @ [10] @ str ''there'' @ [10] @ str ''friend'')\<rparr>,
      mk_entry ''01.01.23'' ''10:00:05'' ''Bob'' ''Hi!'']"

text \<open>
  Two files with directionality marks: the first has a mark in a continuation line, the
  second has marks only in its header line.
\<close>

definition marked_file :: "pystr list" where
  "marked_file =
     [str ''[01.01.23, 10:00:00] Alice: Hello'' @ [10],
      str ''the'' @ [8206] @ str ''re'']"

definition marked_headers :: "pystr list" where
  "marked_headers =
     [[8206] @ str ''[01.01.23, 10:00:00] '' @ [8207] @ str ''Alice: Hello'' @ [10],
      str ''there'']"

section \<open>Notions of the specification\<close>

text \<open>
  The language of the header pattern, read off the regular expression: a line matches
  with the groups \<open>date\<close>, \<open>time\<close>, \<open>person\<close>, \<open>message\<close> when it is
  \<^verbatim>\<open>[date, time] person: message\<close>, optionally followed by one newline, where the
  timestamp groups have their fixed shape, \<open>person\<close> is not empty and holds no colon, and
  \<open>message\<close> is not empty and holds no newline.
\<close>

definition reconstruct :: "pystr \<Rightarrow> pystr \<Rightarrow> pystr \<Rightarrow> pystr \<Rightarrow> pystr" where
  "reconstruct date time person message =
     [91] @ date @ [44, 32] @ time @ [93, 32] @ person @ [58, 32] @ message"

definition header_pattern :: "pystr \<Rightarrow> pystr \<Rightarrow> pystr \<Rightarrow> pystr \<Rightarrow> pystr \<Rightarrow> bool" where
  "header_pattern line date time person message =
     (two_digits_sep 46 date \<and> two_digits_sep 58 time \<and>
      person \<noteq> [] \<and> 58 \<notin> set person \<and> message \<noteq> [] \<and> 10 \<notin> set message \<and>
      (line = reconstruct date time person message \<or>
       line = reconstruct date time person message @ [10]))"

text \<open>
  The line \<^verbatim>\<open>[date, time] sender: message\<close> rebuilt from the four fields of an entry; there
  is none when a field is absent.
\<close>

definition rebuild :: "chat_entry \<Rightarrow> pystr option" where
  "rebuild e =
     (case (Date e, Time e, Person e, Message e) of
        (Some date, Some time, Some person, Some message) \<Rightarrow>
          Some (reconstruct date time person message)
      | _ \<Rightarrow> None)"

text \<open>An entry with all four fields present.\<close>

definition populated :: "chat_entry \<Rightarrow> bool" where
  "populated e = (Date e \<noteq> None \<and> Time e \<noteq> None \<and> Person e \<noteq> None \<and> Message e \<noteq> None)"

text \<open>
  The two tests of the reading loop on a line of the file: the trimmed line is empty
  (the line is skipped), and the parser finds a date in the trimmed line (the line is a
  header). A line that is neither is a continuation line.
\<close>

definition is_blank :: "pystr \<Rightarrow> bool" where
  "is_blank raw = (strip raw = [])"

definition is_header :: "pystr \<Rightarrow> bool" where
  "is_header raw = (strip raw \<noteq> [] \<and> truthy (Date (split_chat_line (strip raw))))"

text \<open>\<^verbatim>\<open>'\n'.join(parts)\<close>: the parts with a newline between neighbours.\<close>

fun join_nl :: "pystr list \<Rightarrow> pystr" where
  "join_nl [] = []"
| "join_nl [x] = x"
| "join_nl (x # y # ys) = x @ [10] @ join_nl (y # ys)"

text \<open>
  The entry in progress as a list, and the invariant of the reading loop: the stored
  entries and the entry in progress are populated.
\<close>

definition pending :: "chat_entry option \<Rightarrow> chat_entry list" where
  "pending current_message = (case current_message of None \<Rightarrow> [] | Some cm \<Rightarrow> [cm])"

definition reader_inv :: "reader_state \<Rightarrow> bool" where
  "reader_inv st = list_all populated (fst st @ pending (snd st))"

section \<open>The pattern matcher and the language of the pattern\<close>

text \<open>
  The matcher finds the groups of a line exactly when the line is in the language of the
  pattern with these groups. The decomposition of a line is unique, so the order in
  which a backtracking matcher tries the alternatives does not show in the result.
\<close>

lemma two_digits_sep_length: "two_digits_sep sep g \<Longrightarrow> length g = 8"
  by (simp add: two_digits_sep_def)

lemma pattern_match_sound:
  assumes "pattern_match line = Some (date, time, person, message)"
  shows "header_pattern line date time person message"
proof -
  define tail where "tail = drop 21 line"
  define after where "after = dropWhile (\<lambda>c. c \<noteq> 58) tail"
  define rest where "rest = drop 2 after"
  define date' where "date' = take 8 (drop 1 line)"
  define time' where "time' = take 8 (drop 11 line)"
  define person' where "person' = takeWhile (\<lambda>c. c \<noteq> 58) tail"
  define message' where
    "message' = (if rest \<noteq> [] \<and> last rest = 10 then butlast rest else rest)"
  define ok where "ok \<longleftrightarrow>
     take 1 line = [91] \<and> two_digits_sep 46 date' \<and> take 2 (drop 9 line) = [44, 32] \<and>
     two_digits_sep 58 time' \<and> take 2 (drop 19 line) = [93, 32] \<and>
     person' \<noteq> [] \<and> take 2 after = [58, 32] \<and> message' \<noteq> [] \<and> 10 \<notin> set message'"
  have pm: "pattern_match line = (if ok then Some (date', time', person', message') else None)"
    unfolding pattern_match_def Let_def ok_def message'_def person'_def time'_def date'_def
      rest_def after_def tail_def ..
  have ok: ok
    using assms pm by (cases ok) simp_all
  then have eqs: "date = date'" "time = time'" "person = person'" "message = message'"
    using assms pm by simp_all
  from ok have c:
    "take 1 line = [91]" "two_digits_sep 46 date" "take 2 (drop 9 line) = [44, 32]"
    "two_digits_sep 58 time" "take 2 (drop 19 line) = [93, 32]"
    "person \<noteq> []" "take 2 after = [58, 32]" "message \<noteq> []" "10 \<notin> set message"
    unfolding ok_def eqs by blast+
  have l1: "line = take 1 line @ drop 1 line" by simp
  have l2: "drop 1 line = take 8 (drop 1 line) @ drop 9 line"
    using append_take_drop_id [of 8 "drop 1 line"] by simp
  have l3: "drop 9 line = take 2 (drop 9 line) @ drop 11 line"
    using append_take_drop_id [of 2 "drop 9 line"] by simp
  have l4: "drop 11 line = take 8 (drop 11 line) @ drop 19 line"
    using append_take_drop_id [of 8 "drop 11 line"] by simp
  have l5: "drop 19 line = take 2 (drop 19 line) @ drop 21 line"
    using append_take_drop_id [of 2 "drop 19 line"] by simp
  have l6: "tail = person @ after"
    by (simp add: eqs person'_def after_def)
  have l7: "after = [58, 32] @ rest"
    using append_take_drop_id [of 2 after] c(7) by (simp add: rest_def)
  have line: "line = [91] @ date @ [44, 32] @ time @ [93, 32] @ person @ [58, 32] @ rest"
    using l1 l2 l3 l4 l5 l6 l7 c(1,3,5) eqs date'_def time'_def tail_def by metis
  have nocolon: "58 \<notin> set person"
    unfolding eqs person'_def by (auto dest: set_takeWhileD)
  have "rest = message \<or> rest = message @ [10]"
  proof (cases "rest \<noteq> [] \<and> last rest = 10")
    case True
    then have "message = butlast rest" using eqs message'_def by simp
    then show ?thesis using True by (metis append_butlast_last_id)
  next
    case False
    then have "message = rest" using eqs message'_def by metis
    then show ?thesis by simp
  qed
  then show ?thesis
    using line c nocolon by (auto simp: header_pattern_def reconstruct_def)
qed

lemma pattern_match_complete:
  assumes "header_pattern line date time person message"
  shows "pattern_match line = Some (date, time, person, message)"
proof -
  from assms obtain nl where
    line: "line = [91] @ date @ [44, 32] @ time @ [93, 32] @ person @ [58, 32] @ message @ nl"
    and nl: "nl = [] \<or> nl = [10]"
    and c: "two_digits_sep 46 date" "two_digits_sep 58 time" "person \<noteq> []" "58 \<notin> set person"
      "message \<noteq> []" "10 \<notin> set message"
    unfolding header_pattern_def reconstruct_def by auto
  have len: "length date = 8" "length time = 8"
    using c(1,2) by (simp_all add: two_digits_sep_length)
  have t1: "take 1 line = [91]" by (simp add: line)
  have t2: "take 8 (drop 1 line) = date" by (simp add: line len)
  have t3: "take 2 (drop 9 line) = [44, 32]" by (simp add: line len)
  have t4: "take 8 (drop 11 line) = time" by (simp add: line len)
  have t5: "take 2 (drop 19 line) = [93, 32]" by (simp add: line len)
  have t6: "drop 21 line = person @ [58, 32] @ message @ nl" by (simp add: line len)
  have "takeWhile (\<lambda>c. c \<noteq> 58) (person @ [58, 32] @ message @ nl) =
      person @ takeWhile (\<lambda>c. c \<noteq> 58) ([58, 32] @ message @ nl)"
    by (rule takeWhile_append2) (use c(4) in auto)
  then have t7: "takeWhile (\<lambda>c. c \<noteq> 58) (drop 21 line) = person"
    unfolding t6 by simp
  have "dropWhile (\<lambda>c. c \<noteq> 58) (person @ [58, 32] @ message @ nl) =
      dropWhile (\<lambda>c. c \<noteq> 58) ([58, 32] @ message @ nl)"
    by (rule dropWhile_append2) (use c(4) in auto)
  then have t8: "dropWhile (\<lambda>c. c \<noteq> 58) (drop 21 line) = [58, 32] @ message @ nl"
    unfolding t6 by simp
  have last: "last message \<noteq> 10"
    using c(5,6) last_in_set by metis
  have t9: "(if message @ nl \<noteq> [] \<and> last (message @ nl) = 10 then butlast (message @ nl)
      else message @ nl) = message"
    using nl c(5) last by (auto simp: butlast_append)
  have t10: "drop 2 ([58, 32] @ message @ nl) = message @ nl"
    "take 2 ([58, 32] @ message @ nl) = [58, 32]"
    by simp_all
  show ?thesis
    unfolding pattern_match_def Let_def t1 t2 t3 t4 t5 t7 t8 t10 t9
    using c by simp
qed

lemma pattern_match_iff:
  "pattern_match line = Some (date, time, person, message) \<longleftrightarrow>
   header_pattern line date time person message"
  using pattern_match_sound pattern_match_complete by blast

section \<open>Trimming and mark removal\<close>

lemma set_strip: "set (strip s) \<subseteq> set s"
proof -
  have "set (strip s) \<subseteq> set (dropWhile isspace s)"
    unfolding strip_def rstrip_def lstrip_def
    using set_dropWhileD [of _ isspace "rev (dropWhile isspace s)"] by auto
  also have "\<dots> \<subseteq> set s"
    using set_dropWhileD [of _ isspace s] by auto
  finally show ?thesis .
qed

lemma rstrip_prefix: "s = rstrip s @ rev (takeWhile isspace (rev s))"
proof -
  have "rstrip s @ rev (takeWhile isspace (rev s)) =
      rev (takeWhile isspace (rev s) @ dropWhile isspace (rev s))"
    by (simp only: rstrip_def rev_append)
  also have "\<dots> = s" by simp
  finally show ?thesis by simp
qed

lemma strip_decomp:
  "\<exists>w1 w2. s = w1 @ strip s @ w2 \<and> (\<forall>c \<in> set w1. isspace c) \<and> (\<forall>c \<in> set w2. isspace c)"
proof -
  let ?w1 = "takeWhile isspace s"
  let ?w2 = "rev (takeWhile isspace (rev (lstrip s)))"
  have "s = ?w1 @ lstrip s" by (simp add: lstrip_def)
  moreover have "lstrip s = strip s @ ?w2"
    unfolding strip_def by (rule rstrip_prefix)
  ultimately have "s = ?w1 @ strip s @ ?w2" by simp
  moreover have "\<forall>c \<in> set ?w1. isspace c" by (auto dest: set_takeWhileD)
  moreover have "\<forall>c \<in> set ?w2. isspace c" by (auto dest: set_takeWhileD)
  ultimately show ?thesis by blast
qed

lemma strip_unique:
  assumes "s = w1 @ x @ w2" "\<forall>c \<in> set w1. isspace c" "\<forall>c \<in> set w2. isspace c"
    and "x = [] \<or> (\<not> isspace (hd x) \<and> \<not> isspace (last x))"
  shows "strip s = x"
proof (cases "x = []")
  case True
  then have "\<forall>c \<in> set s. isspace c" using assms by auto
  then have d: "dropWhile isspace s = []" using dropWhile_eq_Nil_conv by blast
  show ?thesis unfolding strip_def lstrip_def rstrip_def d using True by simp
next
  case False
  then have hd: "\<not> isspace (hd x)" and last: "\<not> isspace (last x)" using assms(4) by auto
  have "dropWhile isspace (w1 @ x @ w2) = dropWhile isspace (x @ w2)"
    by (rule dropWhile_append2) (use assms(2) in auto)
  also have "\<dots> = x @ w2"
    using False hd by (cases x) simp_all
  finally have l: "lstrip s = x @ w2" by (simp add: lstrip_def assms(1))
  have "dropWhile isspace (rev w2 @ rev x) = dropWhile isspace (rev x)"
    by (rule dropWhile_append2) (use assms(3) in auto)
  also have "\<dots> = rev x"
    using False last by (cases "rev x") (simp_all add: last_rev [symmetric] del: last_rev)
  finally show ?thesis by (simp add: strip_def rstrip_def l)
qed

lemma strip_ends:
  "strip s = [] \<or> (\<not> isspace (hd (strip s)) \<and> \<not> isspace (last (strip s)))"
proof (cases "strip s = []")
  case True
  then show ?thesis by simp
next
  case False
  let ?a = "lstrip s"
  have ne: "dropWhile isspace (rev ?a) \<noteq> []"
    using False by (simp add: strip_def rstrip_def)
  have "last (strip s) = hd (dropWhile isspace (rev ?a))"
    using ne by (simp add: strip_def rstrip_def last_rev)
  then have l: "\<not> isspace (last (strip s))"
    using hd_dropWhile [OF ne] by simp
  have a: "?a = strip s @ rev (takeWhile isspace (rev ?a))"
    unfolding strip_def by (rule rstrip_prefix)
  then have "?a \<noteq> []" using False by auto
  then have "\<not> isspace (hd ?a)"
    unfolding lstrip_def by (rule hd_dropWhile)
  moreover have "hd ?a = hd (strip s)"
    using a False by (metis hd_append2)
  ultimately show ?thesis using l by simp
qed

lemma strip_idem: "strip (strip s) = strip s"
  by (rule strip_unique [of _ "[]" _ "[]"]) (simp_all add: strip_ends)

lemma sub_marks_idem: "sub_marks (sub_marks s) = sub_marks s"
  by (simp add: sub_marks_def)

lemma sub_marks_id: "8206 \<notin> set s \<Longrightarrow> 8207 \<notin> set s \<Longrightarrow> sub_marks s = s"
  unfolding sub_marks_def by (induction s) auto

lemma set_sub_marks: "set (sub_marks s) = set s - {8206, 8207}"
  by (auto simp: sub_marks_def)

section \<open>Evaluation on ASCII text\<close>

lemma re_digit_ascii: "48 \<le> c \<Longrightarrow> c \<le> 57 \<Longrightarrow> re_digit c"
  by (simp add: re_digit_def nd_zeros_def)

lemmas eval_defs =
  split_chat_line_def pattern_match_def sub_marks_def str_def two_digits_sep_def
  strip_def lstrip_def rstrip_def isspace_def mk_entry_def absent_entry_def reconstruct_def
  Let_def re_digit_ascii

lemma split_example_header:
  "split_chat_line (str ''[01.01.23, 10:00:00] Alice:  Hello '') =
     \<lparr>Date = Some (str ''01.01.23''), Time = Some (str ''10:00:00''),
      Person = Some (str ''Alice''), Message = Some (str ''Hello'')\<rparr>"
  by (simp add: eval_defs)

lemma split_example_no_header:
  "split_chat_line (str ''[01.01.23, 10:00] Alice: Hello'') = absent_entry"
  by (simp add: eval_defs)

section \<open>The line parser\<close>

lemma split_chat_line_match:
  "pattern_match (sub_marks line) = Some (date, time, person, message) \<Longrightarrow>
   split_chat_line line =
     \<lparr>Date = Some date, Time = Some time, Person = Some person, Message = Some (strip message)\<rparr>"
  by (simp add: split_chat_line_def)

lemma split_chat_line_no_match:
  "pattern_match (sub_marks line) = None \<Longrightarrow> split_chat_line line = absent_entry"
  by (simp add: split_chat_line_def absent_entry_def)

text \<open>
  C2. For every line, \<open>split_chat_line\<close> returns either the record of the four groups
  with which the line, marks removed, is in the language of the pattern (the message
  trimmed, all four fields present), or, when the line is not in that language, the
  record with all four fields absent. The function has no other result: it is total and
  raises nothing.
\<close>

theorem split_chat_line_all_or_nothing:
  "(\<exists>date time person message.
      header_pattern (sub_marks line) date time person message \<and>
      split_chat_line line =
        \<lparr>Date = Some date, Time = Some time, Person = Some person,
         Message = Some (strip message)\<rparr> \<and>
      populated (split_chat_line line)) \<or>
   ((\<forall>date time person message. \<not> header_pattern (sub_marks line) date time person message) \<and>
    split_chat_line line = \<lparr>Date = None, Time = None, Person = None, Message = None\<rparr>)"
proof (cases "pattern_match (sub_marks line)")
  case None
  then have "\<forall>date time person message.
      \<not> header_pattern (sub_marks line) date time person message"
    using pattern_match_complete by fastforce
  then show ?thesis
    using split_chat_line_no_match [OF None] by (simp add: absent_entry_def)
next
  case (Some g)
  then obtain date time person message where
    g: "pattern_match (sub_marks line) = Some (date, time, person, message)"
    by (cases g) auto
  have "header_pattern (sub_marks line) date time person message"
    using g by (rule pattern_match_sound)
  then show ?thesis
    using split_chat_line_match [OF g] by (auto simp: populated_def)
qed

theorem split_chat_line_all_or_nothing_witness:
  "split_chat_line (str ''[01.01.23, 10:00:00] Alice:  Hello '') =
     mk_entry ''01.01.23'' ''10:00:00'' ''Alice'' ''Hello'' \<and>
   split_chat_line (str ''[01.01.23, 10:00] Alice: Hello'') = absent_entry"
  using split_chat_line_all_or_nothing [of "str ''[01.01.23, 10:00:00] Alice:  Hello ''"]
    split_chat_line_all_or_nothing [of "str ''[01.01.23, 10:00] Alice: Hello''"]
    split_example_header split_example_no_header
  by (simp add: mk_entry_def)

text \<open>
  C9. Let a line, marks removed, match the header pattern with the groups \<open>date\<close>,
  \<open>time\<close>, \<open>person\<close>, \<open>message\<close>. Then \<open>split_chat_line\<close> returns these values, the message
  trimmed, and the line \<^verbatim>\<open>[date, time] sender: message\<close> rebuilt from the four returned
  fields is made of exactly these values, the message in trimmed form. When trimming
  changes nothing, the rebuilt line is the mark-free line itself, up to a final newline.
\<close>

theorem split_chat_line_rebuild:
  assumes "header_pattern (sub_marks line) date time person message"
  shows "split_chat_line line =
       \<lparr>Date = Some date, Time = Some time, Person = Some person,
        Message = Some (strip message)\<rparr> \<and>
     rebuild (split_chat_line line) = Some (reconstruct date time person (strip message)) \<and>
     (strip message = message \<longrightarrow>
        sub_marks line = reconstruct date time person (strip message) \<or>
        sub_marks line = reconstruct date time person (strip message) @ [10])"
proof -
  have "pattern_match (sub_marks line) = Some (date, time, person, message)"
    using assms by (rule pattern_match_complete)
  then have fields: "split_chat_line line =
       \<lparr>Date = Some date, Time = Some time, Person = Some person,
        Message = Some (strip message)\<rparr>"
    by (rule split_chat_line_match)
  then have rebuilt: "rebuild (split_chat_line line) =
      Some (reconstruct date time person (strip message))"
    by (simp add: rebuild_def)
  have same: "strip message = message \<longrightarrow>
        sub_marks line = reconstruct date time person (strip message) \<or>
        sub_marks line = reconstruct date time person (strip message) @ [10]"
    using assms by (auto simp: header_pattern_def)
  from fields rebuilt same show ?thesis by blast
qed

lemma header_pattern_examples:
  "header_pattern (sub_marks (str ''[01.01.23, 10:00:00] Alice:  Hello ''))
     (str ''01.01.23'') (str ''10:00:00'') (str ''Alice'') (str '' Hello '')"
  "header_pattern (sub_marks (str ''[01.01.23, 10:00:00] Alice:  ''))
     (str ''01.01.23'') (str ''10:00:00'') (str ''Alice'') (str '' '')"
  "header_pattern (sub_marks ([8206] @ str ''[01.01.23, 10:00:05] Bob: Hi!'' @ [10]))
     (str ''01.01.23'') (str ''10:00:05'') (str ''Bob'') (str ''Hi!'')"
  by (simp_all add: header_pattern_def eval_defs)

lemma strip_examples:
  "strip (str '' Hello '') = str ''Hello''" "strip (str '' '') = []"
  "strip (str ''Hi!'') = str ''Hi!''"
  by (simp_all add: eval_defs)

theorem split_chat_line_rebuild_witness:
  "header_pattern (sub_marks (str ''[01.01.23, 10:00:00] Alice:  Hello ''))
     (str ''01.01.23'') (str ''10:00:00'') (str ''Alice'') (str '' Hello '') \<and>
   split_chat_line (str ''[01.01.23, 10:00:00] Alice:  Hello '') =
     mk_entry ''01.01.23'' ''10:00:00'' ''Alice'' ''Hello'' \<and>
   rebuild (split_chat_line (str ''[01.01.23, 10:00:00] Alice:  Hello '')) =
     Some (str ''[01.01.23, 10:00:00] Alice: Hello'') \<and>
   header_pattern (sub_marks (str ''[01.01.23, 10:00:00] Alice:  ''))
     (str ''01.01.23'') (str ''10:00:00'') (str ''Alice'') (str '' '') \<and>
   split_chat_line (str ''[01.01.23, 10:00:00] Alice:  '') =
     mk_entry ''01.01.23'' ''10:00:00'' ''Alice'' [] \<and>
   rebuild (split_chat_line (str ''[01.01.23, 10:00:00] Alice:  '')) =
     Some (str ''[01.01.23, 10:00:00] Alice: '') \<and>
   strip (str ''Hi!'') = str ''Hi!'' \<and>
   rebuild (split_chat_line ([8206] @ str ''[01.01.23, 10:00:05] Bob: Hi!'' @ [10])) =
     Some (str ''[01.01.23, 10:00:05] Bob: Hi!'') \<and>
   sub_marks ([8206] @ str ''[01.01.23, 10:00:05] Bob: Hi!'' @ [10]) =
     str ''[01.01.23, 10:00:05] Bob: Hi!'' @ [10]"
proof -
  have r: "reconstruct (str ''01.01.23'') (str ''10:00:00'') (str ''Alice'') (str ''Hello'') =
      str ''[01.01.23, 10:00:00] Alice: Hello''"
    "reconstruct (str ''01.01.23'') (str ''10:00:00'') (str ''Alice'') [] =
      str ''[01.01.23, 10:00:00] Alice: ''"
    "reconstruct (str ''01.01.23'') (str ''10:00:05'') (str ''Bob'') (str ''Hi!'') =
      str ''[01.01.23, 10:00:05] Bob: Hi!''"
    by (simp_all add: reconstruct_def str_def)
  have m: "sub_marks ([8206] @ str ''[01.01.23, 10:00:05] Bob: Hi!'' @ [10]) =
     str ''[01.01.23, 10:00:05] Bob: Hi!'' @ [10]"
    by (simp add: sub_marks_def str_def)
  have e: "str [] = []" by (simp add: str_def)
  note a = split_chat_line_rebuild [OF header_pattern_examples(1)]
  note b = split_chat_line_rebuild [OF header_pattern_examples(2)]
  note c = split_chat_line_rebuild [OF header_pattern_examples(3)]
  have a1: "split_chat_line (str ''[01.01.23, 10:00:00] Alice:  Hello '') =
     mk_entry ''01.01.23'' ''10:00:00'' ''Alice'' ''Hello''"
    using a [THEN conjunct1] by (simp only: strip_examples mk_entry_def)
  have a2: "rebuild (split_chat_line (str ''[01.01.23, 10:00:00] Alice:  Hello '')) =
     Some (str ''[01.01.23, 10:00:00] Alice: Hello'')"
    using a [THEN conjunct2, THEN conjunct1] by (simp only: strip_examples r)
  have b1: "split_chat_line (str ''[01.01.23, 10:00:00] Alice:  '') =
     mk_entry ''01.01.23'' ''10:00:00'' ''Alice'' []"
    using b [THEN conjunct1] by (simp only: strip_examples mk_entry_def e)
  have b2: "rebuild (split_chat_line (str ''[01.01.23, 10:00:00] Alice:  '')) =
     Some (str ''[01.01.23, 10:00:00] Alice: '')"
    using b [THEN conjunct2, THEN conjunct1] by (simp only: strip_examples r)
  have c2: "rebuild (split_chat_line ([8206] @ str ''[01.01.23, 10:00:05] Bob: Hi!'' @ [10])) =
     Some (str ''[01.01.23, 10:00:05] Bob: Hi!'')"
    using c [THEN conjunct2, THEN conjunct1] by (simp only: strip_examples r)
  from header_pattern_examples(1) a1 a2 header_pattern_examples(2) b1 b2
    strip_examples(3) c2 m
  show ?thesis by blast
qed

text \<open>
  Parsing the rebuilt line once more is a further step. It returns the same four fields
  when the trimmed message is not empty. A header whose message is only whitespace is
  parsed with the empty message, and its rebuilt line, which ends after the colon and
  the space, is no header.
\<close>

lemma split_chat_line_reparse:
  assumes "split_chat_line line =
      \<lparr>Date = Some date, Time = Some time, Person = Some person, Message = Some message\<rparr>"
    and "message \<noteq> []"
  shows "split_chat_line (reconstruct date time person message) =
      \<lparr>Date = Some date, Time = Some time, Person = Some person, Message = Some message\<rparr>"
proof -
  from assms(1) obtain m0 where
    g: "pattern_match (sub_marks line) = Some (date, time, person, m0)" and m: "message = strip m0"
    by (auto simp: split_chat_line_def split: option.splits)
  have h: "header_pattern (sub_marks line) date time person m0"
    using g by (rule pattern_match_sound)
  then have parts: "set date \<subseteq> set (sub_marks line)" "set time \<subseteq> set (sub_marks line)"
    "set person \<subseteq> set (sub_marks line)" "set m0 \<subseteq> set (sub_marks line)"
    unfolding header_pattern_def reconstruct_def by auto
  have sub: "set message \<subseteq> set m0" unfolding m by (rule set_strip)
  have "set (reconstruct date time person message) \<subseteq> set (sub_marks line) \<union> {91, 44, 32, 93, 58}"
    using parts sub by (auto simp: reconstruct_def)
  then have "8206 \<notin> set (reconstruct date time person message)"
    "8207 \<notin> set (reconstruct date time person message)"
    by (auto simp: set_sub_marks)
  then have marks: "sub_marks (reconstruct date time person message) =
      reconstruct date time person message"
    by (rule sub_marks_id)
  have "10 \<notin> set message" using h sub by (auto simp: header_pattern_def)
  then have "header_pattern (reconstruct date time person message) date time person message"
    using h assms(2) by (simp add: header_pattern_def)
  then have "pattern_match (sub_marks (reconstruct date time person message)) =
      Some (date, time, person, message)"
    unfolding marks by (rule pattern_match_complete)
  then show ?thesis
    using split_chat_line_match [of "reconstruct date time person message"]
    by (simp add: m strip_idem)
qed

lemma split_chat_line_reparse_empty_message:
  "split_chat_line (str ''[01.01.23, 10:00:00] Alice:  '') =
     mk_entry ''01.01.23'' ''10:00:00'' ''Alice'' [] \<and>
   split_chat_line
     (reconstruct (str ''01.01.23'') (str ''10:00:00'') (str ''Alice'') (str [])) =
     absent_entry"
  by (simp add: eval_defs)

section \<open>The reading loop\<close>

lemma split_chat_line_cases:
  "populated (split_chat_line line) \<or> split_chat_line line = absent_entry"
  by (cases "pattern_match (sub_marks line)")
    (auto simp: split_chat_line_def populated_def absent_entry_def)

lemma truthy_Date_populated:
  "truthy (Date (split_chat_line line)) \<Longrightarrow> populated (split_chat_line line)"
  using split_chat_line_cases [of line] by (auto simp: absent_entry_def truthy_def)

lemma commit_pending:
  "(case current_message of None \<Rightarrow> chat | Some cm \<Rightarrow> chat @ [cm]) = chat @ pending current_message"
  by (simp add: pending_def split: option.splits)

lemma read_line_blank: "is_blank raw \<Longrightarrow> read_line (chat, cur) raw = Inr (chat, cur)"
  by (simp add: read_line_def is_blank_def)

lemma read_line_header:
  "is_header raw \<Longrightarrow>
   read_line (chat, cur) raw = Inr (chat @ pending cur, Some (split_chat_line (strip raw)))"
  by (simp add: read_line_def is_header_def Let_def commit_pending)

lemma read_line_continuation_discarded:
  "\<not> is_blank raw \<Longrightarrow> \<not> is_header raw \<Longrightarrow> read_line (chat, None) raw = Inr (chat, None)"
  by (simp add: read_line_def is_header_def is_blank_def Let_def)

lemma read_line_continuation:
  "\<not> is_blank raw \<Longrightarrow> \<not> is_header raw \<Longrightarrow> Message cm = Some m \<Longrightarrow>
   read_line (chat, Some cm) raw = Inr (chat, Some (cm\<lparr>Message := Some (m @ 10 # strip raw)\<rparr>))"
  by (simp add: read_line_def is_header_def is_blank_def Let_def)

lemma read_line_inv:
  assumes "reader_inv st"
  shows "\<exists>st'. read_line st raw = Inr st' \<and> reader_inv st'"
proof -
  obtain chat cur where st: "st = (chat, cur)" by (cases st)
  consider "is_blank raw" | "is_header raw" | "\<not> is_blank raw" "\<not> is_header raw"
    by blast
  then show ?thesis
  proof cases
    case 1
    then show ?thesis using assms st by (simp add: read_line_blank)
  next
    case 2
    then have "populated (split_chat_line (strip raw))"
      by (simp add: is_header_def truthy_Date_populated)
    then show ?thesis
      using assms st 2 by (simp add: read_line_header reader_inv_def pending_def)
  next
    case 3
    show ?thesis
    proof (cases cur)
      case None
      then show ?thesis using assms st 3 by (simp add: read_line_continuation_discarded)
    next
      case (Some cm)
      then have "populated cm" using assms st by (simp add: reader_inv_def pending_def)
      then obtain m where m: "Message cm = Some m" by (auto simp: populated_def)
      have "populated (cm\<lparr>Message := Some (m @ 10 # strip raw)\<rparr>)"
        using \<open>populated cm\<close> by (simp add: populated_def)
      then show ?thesis
        using assms st 3 Some m by (simp add: read_line_continuation reader_inv_def pending_def)
    qed
  qed
qed

lemma read_lines_inv:
  "reader_inv st \<Longrightarrow> \<exists>st'. read_lines st lines = Inr st' \<and> reader_inv st'"
proof (induction lines arbitrary: st)
  case Nil
  then show ?case by simp
next
  case (Cons raw lines)
  from read_line_inv [OF Cons.prems, of raw] obtain st1 where
    st1: "read_line st raw = Inr st1" "reader_inv st1" by blast
  from Cons.IH [OF st1(2)] show ?case using st1(1) by simp
qed

lemma reader_inv_init: "reader_inv ([], None)"
  by (simp add: reader_inv_def pending_def)

lemma read_messages_result:
  "\<exists>chat cur. read_lines ([], None) lines = Inr (chat, cur) \<and> reader_inv (chat, cur) \<and>
     read_messages lines = Inr (chat @ pending cur)"
proof -
  from read_lines_inv [OF reader_inv_init, of lines] obtain st' where
    st': "read_lines ([], None) lines = Inr st'" "reader_inv st'" by blast
  obtain chat cur where "st' = (chat, cur)" by (cases st')
  then show ?thesis using st' by (simp add: read_messages_def commit_pending)
qed

lemma read_messages_total: "\<exists>chat. read_messages lines = Inr chat \<and> list_all populated chat"
  using read_messages_result [of lines] by (auto simp: reader_inv_def)

lemma read_lines_append:
  "read_lines st (xs @ ys) =
     (case read_lines st xs of Inl e \<Rightarrow> Inl e | Inr st' \<Rightarrow> read_lines st' ys)"
  by (induction xs arbitrary: st) (simp_all split: sum.splits)

lemma read_line_prefix:
  "read_line (chat, cur) raw = Inr (chat', cur') \<Longrightarrow>
   read_line (pfx @ chat, cur) raw = Inr (pfx @ chat', cur')"
  by (auto simp: read_line_def Let_def split: if_splits option.splits)

lemma read_lines_prefix:
  "read_lines (chat, cur) lines = Inr (chat', cur') \<Longrightarrow>
   read_lines (pfx @ chat, cur) lines = Inr (pfx @ chat', cur')"
proof (induction lines arbitrary: chat cur)
  case Nil
  then show ?case by simp
next
  case (Cons raw lines)
  from Cons.prems obtain c1 u1 where
    s1: "read_line (chat, cur) raw = Inr (c1, u1)" and
    s2: "read_lines (c1, u1) lines = Inr (chat', cur')"
    by (auto split: sum.splits)
  show ?case
    using read_line_prefix [OF s1, of pfx] Cons.IH [OF s2] by simp
qed

lemma join_nl_Cons: "join_nl (x # xs) = x @ concat (map (\<lambda>y. 10 # y) xs)"
  by (induction xs arbitrary: x) simp_all

lemma read_lines_continuations:
  "\<forall>c \<in> set cs. \<not> is_header c \<Longrightarrow> Message cm = Some m \<Longrightarrow>
   read_lines (chat, Some cm) cs =
     Inr (chat, Some (cm\<lparr>Message :=
       Some (m @ concat (map (\<lambda>c. 10 # strip c) (filter (\<lambda>c. \<not> is_blank c) cs)))\<rparr>))"
proof (induction cs arbitrary: cm m)
  case Nil
  then show ?case by simp
next
  case (Cons c cs)
  show ?case
  proof (cases "is_blank c")
    case True
    then show ?thesis using Cons by (simp add: read_line_blank)
  next
    case False
    have nh: "\<not> is_header c" using Cons.prems by simp
    let ?cm = "cm\<lparr>Message := Some (m @ 10 # strip c)\<rparr>"
    have "read_lines (chat, Some ?cm) cs =
      Inr (chat, Some (?cm\<lparr>Message :=
        Some ((m @ 10 # strip c) @ concat (map (\<lambda>c. 10 # strip c) (filter (\<lambda>c. \<not> is_blank c) cs)))\<rparr>))"
      using Cons.prems by (intro Cons.IH) simp_all
    then show ?thesis
      using False nh Cons.prems(2) by (simp add: read_line_continuation)
  qed
qed

section \<open>Construction\<close>

text \<open>
  C1. Take a file that consists of any lines \<open>pre\<close>, a header line \<open>h\<close>, lines \<open>cs\<close> none
  of which is a header, and lines \<open>rest\<close> that are either none (end of file) or start
  with a header. Reading never raises, and the stored entries are those of \<open>pre\<close> read
  alone, then exactly one entry for \<open>h\<close>, then the entries of \<open>rest\<close> read alone (none at
  the end of the file, so the last entry is stored once). The entry for \<open>h\<close> has the
  fields the parser returns for \<open>h\<close>, with, as message, the trimmed message of \<open>h\<close> and
  the trimmed continuation lines of \<open>cs\<close>, joined with newlines. Lines of \<open>cs\<close> that are
  empty once trimmed are skipped by the loop: they are not continuation lines and add
  nothing.
\<close>

theorem read_messages_multiline:
  assumes "is_header h" and "\<forall>c \<in> set cs. \<not> is_header c"
    and "rest = [] \<or> is_header (hd rest)"
  shows "\<exists>before after m0.
     read_messages pre = Inr before \<and> read_messages rest = Inr after \<and>
     (rest = [] \<longrightarrow> after = []) \<and>
     Message (split_chat_line (strip h)) = Some m0 \<and>
     read_messages (pre @ h # cs @ rest) =
       Inr (before @
            [(split_chat_line (strip h))\<lparr>Message :=
               Some (join_nl (m0 # map strip (filter (\<lambda>c. \<not> is_blank c) cs)))\<rparr>] @
            after)"
proof -
  let ?e0 = "split_chat_line (strip h)"
  have "populated ?e0"
    using assms(1) by (simp add: is_header_def truthy_Date_populated)
  then obtain m0 where m0: "Message ?e0 = Some m0" by (auto simp: populated_def)
  let ?e1 = "?e0\<lparr>Message :=
      Some (join_nl (m0 # map strip (filter (\<lambda>c. \<not> is_blank c) cs)))\<rparr>"
  from read_messages_result [of pre] obtain c1 u1 where
    pre: "read_lines ([], None) pre = Inr (c1, u1)"
      "read_messages pre = Inr (c1 @ pending u1)" by blast
  from read_messages_result [of rest] obtain c3 u3 where
    rest: "read_lines ([], None) rest = Inr (c3, u3)"
      "read_messages rest = Inr (c3 @ pending u3)" by blast
  let ?before = "c1 @ pending u1"
  let ?after = "c3 @ pending u3"
  have conts: "read_lines (?before, Some ?e0) cs = Inr (?before, Some ?e1)"
    using read_lines_continuations [OF assms(2) m0, of ?before]
    by (simp add: join_nl_Cons comp_def)
  have step: "read_lines ([], None) (pre @ h # cs) = Inr (?before, Some ?e1)"
    using pre(1) conts assms(1) by (simp add: read_lines_append read_line_header)
  have final: "read_messages (pre @ h # cs @ rest) = Inr (?before @ [?e1] @ ?after)"
  proof (cases rest)
    case Nil
    then have "c3 = []" "u3 = None" using rest(1) by simp_all
    then show ?thesis
      using step Nil by (simp add: read_messages_def pending_def)
  next
    case (Cons h2 r2)
    then have h2: "is_header h2" using assms(3) by simp
    let ?e2 = "split_chat_line (strip h2)"
    have "read_lines ([], Some ?e2) r2 = Inr (c3, u3)"
      using rest(1) Cons h2 by (simp add: read_line_header pending_def)
    then have "read_lines ((?before @ [?e1]) @ [], Some ?e2) r2 =
        Inr ((?before @ [?e1]) @ c3, u3)"
      by (rule read_lines_prefix)
    then have "read_lines (?before, Some ?e1) rest = Inr (?before @ [?e1] @ c3, u3)"
      using Cons h2 by (simp add: read_line_header pending_def)
    then have "read_lines ([], None) ((pre @ h # cs) @ rest) = Inr (?before @ [?e1] @ c3, u3)"
      using step by (simp only: read_lines_append sum.case)
    then show ?thesis
      by (simp add: read_messages_def commit_pending)
  qed
  have "rest = [] \<longrightarrow> ?after = []"
    using rest(1) by (auto simp: pending_def)
  then show ?thesis
    using pre(2) rest(2) m0 final by blast
qed

lemma sample_file_read: "read_messages sample_file = Inr sample_read"
  by (simp add: sample_file_def sample_read_def read_messages_def read_line_def truthy_def
      eval_defs)

lemma sample_file_lines:
  "is_header (sample_file ! 0)" "\<not> is_header (sample_file ! 1)" "\<not> is_header (sample_file ! 2)"
  "\<not> is_header (sample_file ! 3)" "is_header (sample_file ! 4)"
  "is_blank (sample_file ! 2)"
  by (simp_all add: sample_file_def is_header_def is_blank_def truthy_def eval_defs)

theorem read_messages_multiline_witness:
  "is_header (sample_file ! 0) \<and> \<not> is_header (sample_file ! 1) \<and>
   \<not> is_header (sample_file ! 2) \<and> \<not> is_header (sample_file ! 3) \<and>
   is_header (sample_file ! 4) \<and>
   sample_file = [] @ sample_file ! 0 # [sample_file ! 1, sample_file ! 2, sample_file ! 3] @
     [sample_file ! 4] \<and>
   read_messages sample_file = Inr sample_read \<and>
   Message (sample_read ! 0) =
     Some (join_nl [str ''Hello'', str ''there'', str ''friend'']) \<and>
   Message (sample_read ! 1) = Some (str ''Hi!'') \<and>
   length sample_read = 2"
proof -
  have cs: "\<forall>c \<in> set [sample_file ! 1, sample_file ! 2, sample_file ! 3]. \<not> is_header c"
    using sample_file_lines by simp
  have r: "[sample_file ! 4] = [] \<or> is_header (hd [sample_file ! 4])"
    using sample_file_lines by simp
  have e: "[] = [] \<or> is_header (hd [])" by simp
  have shape: "sample_file =
      [] @ sample_file ! 0 # [sample_file ! 1, sample_file ! 2, sample_file ! 3] @
      [sample_file ! 4]"
    by (simp add: sample_file_def)
  have vals: "Message (sample_read ! 0) =
      Some (join_nl [str ''Hello'', str ''there'', str ''friend''])"
    "Message (sample_read ! 1) = Some (str ''Hi!'')" "length sample_read = 2"
    by (simp_all add: sample_read_def mk_entry_def)
  note mid = read_messages_multiline [OF sample_file_lines(1) cs r, of "[]"]
  note last = read_messages_multiline [OF sample_file_lines(5) _ e,
      of "[]" "[sample_file ! 0, sample_file ! 1, sample_file ! 2, sample_file ! 3]"]
  show ?thesis
    using mid last sample_file_lines sample_file_read shape vals by simp
qed

section \<open>Directionality marks\<close>

lemma isspace_not_mark: "isspace c \<Longrightarrow> c \<noteq> 8206 \<and> c \<noteq> 8207"
  by (auto simp: isspace_def)

lemma sub_marks_append: "sub_marks (a @ b) = sub_marks a @ sub_marks b"
  by (simp add: sub_marks_def)

lemma sub_marks_spaces: "\<forall>c \<in> set w. isspace c \<Longrightarrow> sub_marks w = w"
  by (rule sub_marks_id) (auto dest: isspace_not_mark)

lemma isspace_newline: "isspace 10"
  by (simp add: isspace_def)

lemma not_isspace_bracket: "\<not> isspace 91"
  by (simp add: isspace_def)

lemma is_header_match:
  assumes "is_header l"
  obtains date time person message where
    "header_pattern (sub_marks (strip l)) date time person message"
    "split_chat_line (strip l) =
       \<lparr>Date = Some date, Time = Some time, Person = Some person,
        Message = Some (strip message)\<rparr>"
proof (cases "pattern_match (sub_marks (strip l))")
  case None
  then have "split_chat_line (strip l) = absent_entry" by (rule split_chat_line_no_match)
  then show ?thesis using assms by (simp add: is_header_def absent_entry_def truthy_def)
next
  case (Some g)
  then obtain date time person message where
    g: "pattern_match (sub_marks (strip l)) = Some (date, time, person, message)"
    by (cases g) auto
  show ?thesis
    using that [OF pattern_match_sound [OF g] split_chat_line_match [OF g]] .
qed

lemma header_marks_removed:
  assumes "is_header l" and "Message (split_chat_line (strip l)) \<noteq> Some []"
  shows "strip (sub_marks l) \<noteq> [] \<and>
     split_chat_line (strip (sub_marks l)) = split_chat_line (strip l)"
proof -
  from assms(1) obtain d t p m where
    h: "header_pattern (sub_marks (strip l)) d t p m" and
    e: "split_chat_line (strip l) =
       \<lparr>Date = Some d, Time = Some t, Person = Some p, Message = Some (strip m)\<rparr>"
    by (rule is_header_match)
  have M: "strip m \<noteq> []" using assms(2) e by simp
  from h obtain nl where
    s: "sub_marks (strip l) = reconstruct d t p m @ nl" and nl: "nl = [] \<or> nl = [10]"
    by (auto simp: header_pattern_def)
  from strip_decomp [of l] obtain w1 w2 where
    l: "l = w1 @ strip l @ w2" and w: "\<forall>c \<in> set w1. isspace c" "\<forall>c \<in> set w2. isspace c"
    by blast
  from strip_decomp [of m] obtain u1 u2 where
    m: "m = u1 @ strip m @ u2" and u: "\<forall>c \<in> set u1. isspace c" "\<forall>c \<in> set u2. isspace c"
    by blast
  let ?x = "reconstruct d t p (u1 @ strip m)"
  have "sub_marks l = sub_marks w1 @ sub_marks (strip l) @ sub_marks w2"
    using l sub_marks_append by metis
  then have "sub_marks l = w1 @ (reconstruct d t p m @ nl) @ w2"
    using w by (simp add: sub_marks_spaces s)
  also have "reconstruct d t p m = ?x @ u2"
    using m by (simp add: reconstruct_def)
  finally have sl: "sub_marks l = w1 @ ?x @ (u2 @ nl @ w2)" by simp
  have sp: "\<forall>c \<in> set (u2 @ nl @ w2). isspace c"
    using u(2) w(2) nl isspace_newline by auto
  have ends_M: "\<not> isspace (hd (strip m))" "\<not> isspace (last (strip m))"
    using strip_ends [of m] M by auto
  have "hd ?x = 91" by (simp add: reconstruct_def)
  moreover have "last ?x = last (strip m)"
    using M by (simp add: reconstruct_def)
  ultimately have ends: "?x = [] \<or> (\<not> isspace (hd ?x) \<and> \<not> isspace (last ?x))"
    using ends_M not_isspace_bracket by simp
  have x: "strip (sub_marks l) = ?x"
    using sl w(1) sp ends by (rule strip_unique)
  have ne: "?x \<noteq> []" by (simp add: reconstruct_def)
  have setm: "set u1 \<union> set (strip m) \<subseteq> set m"
    using arg_cong [OF m, of set] by auto
  have "set ?x \<subseteq> set (sub_marks (strip l))"
    unfolding s using setm by (auto simp: reconstruct_def)
  then have "8206 \<notin> set ?x" "8207 \<notin> set ?x"
    by (auto simp: set_sub_marks)
  then have marks: "sub_marks ?x = ?x" by (rule sub_marks_id)
  have "10 \<notin> set (u1 @ strip m)" using h setm by (auto simp: header_pattern_def)
  then have "header_pattern ?x d t p (u1 @ strip m)"
    using h M by (simp add: header_pattern_def)
  then have "pattern_match (sub_marks ?x) = Some (d, t, p, u1 @ strip m)"
    unfolding marks by (rule pattern_match_complete)
  then have "split_chat_line ?x =
      \<lparr>Date = Some d, Time = Some t, Person = Some p, Message = Some (strip (u1 @ strip m))\<rparr>"
    by (rule split_chat_line_match)
  moreover have "strip (u1 @ strip m) = strip m"
    by (rule strip_unique [of _ u1 _ "[]"]) (use u(1) strip_ends [of m] in simp_all)
  ultimately show ?thesis using x ne e by simp
qed

lemma read_line_marks_removed:
  assumes "sub_marks l \<noteq> l \<longrightarrow> is_header l \<and> Message (split_chat_line (strip l)) \<noteq> Some []"
  shows "read_line st (sub_marks l) = read_line st l"
proof (cases "sub_marks l = l")
  case True
  then show ?thesis by simp
next
  case False
  then have hl: "is_header l" and msg: "Message (split_chat_line (strip l)) \<noteq> Some []"
    using assms by auto
  note eq = header_marks_removed [OF hl msg]
  have "is_header (sub_marks l)"
    using eq hl by (simp add: is_header_def)
  then show ?thesis
    using hl eq by (cases st) (simp add: read_line_header)
qed

lemma read_lines_marks_removed:
  "\<forall>l \<in> set lines. sub_marks l \<noteq> l \<longrightarrow>
      is_header l \<and> Message (split_chat_line (strip l)) \<noteq> Some [] \<Longrightarrow>
   read_lines st (map sub_marks lines) = read_lines st lines"
proof (induction lines arbitrary: st)
  case Nil
  then show ?case by simp
next
  case (Cons l lines)
  then have "read_line st (sub_marks l) = read_line st l"
    by (intro read_line_marks_removed) simp
  then show ?case using Cons by (simp split: sum.splits)
qed

lemma split_chat_line_sub_marks: "split_chat_line (sub_marks line) = split_chat_line line"
  by (simp add: split_chat_line_def sub_marks_idem)

text \<open>
  C5, as the claim states it, fails: the marks are removed inside \<open>split_chat_line\<close>
  only, and the loop appends the trimmed line itself to the message. A mark in a
  continuation line is stored, so the file and the file without its marks are read to
  different entries.
\<close>

theorem marks_ignored_counterexample:
  "read_messages marked_file =
     Inr [\<lparr>Date = Some (str ''01.01.23''), Time = Some (str ''10:00:00''),
           Person = Some (str ''Alice''),
           Message = Some (str ''Hello'' @ [10] @ str ''the'' @ [8206] @ str ''re'')\<rparr>] \<and>
   read_messages (map sub_marks marked_file) =
     Inr [\<lparr>Date = Some (str ''01.01.23''), Time = Some (str ''10:00:00''),
           Person = Some (str ''Alice''),
           Message = Some (str ''Hello'' @ [10] @ str ''there'')\<rparr>] \<and>
   read_messages marked_file \<noteq> read_messages (map sub_marks marked_file)"
  by (simp add: marked_file_def read_messages_def read_line_def truthy_def eval_defs)

text \<open>
  C5, amended. The marks never affect the line parser: \<open>split_chat_line\<close> returns the
  same record for a line and for the line without its marks. A file and the file without
  its marks are read to the same entries when the marks occur only in header lines
  whose parsed message is not empty.
\<close>

theorem marks_ignored:
  "split_chat_line (sub_marks line) = split_chat_line line \<and>
   ((\<forall>l \<in> set lines. sub_marks l \<noteq> l \<longrightarrow>
        is_header l \<and> Message (split_chat_line (strip l)) \<noteq> Some []) \<longrightarrow>
    read_messages (map sub_marks lines) = read_messages lines)"
  using split_chat_line_sub_marks [of line] read_lines_marks_removed [of lines "([], None)"]
  by (simp add: read_messages_def)

lemma marked_headers_read:
  "read_messages marked_headers =
     Inr [\<lparr>Date = Some (str ''01.01.23''), Time = Some (str ''10:00:00''),
           Person = Some (str ''Alice''),
           Message = Some (str ''Hello'' @ [10] @ str ''there'')\<rparr>]"
  by (simp add: marked_headers_def read_messages_def read_line_def truthy_def eval_defs)

lemma marked_headers_lines:
  "sub_marks (marked_headers ! 0) \<noteq> marked_headers ! 0"
  "is_header (marked_headers ! 0)"
  "Message (split_chat_line (strip (marked_headers ! 0))) \<noteq> Some []"
  "sub_marks (marked_headers ! 1) = marked_headers ! 1"
  by (simp_all add: marked_headers_def is_header_def truthy_def eval_defs)

theorem marks_ignored_witness:
  "sub_marks (marked_headers ! 0) \<noteq> marked_headers ! 0 \<and>
   is_header (marked_headers ! 0) \<and>
   Message (split_chat_line (strip (marked_headers ! 0))) \<noteq> Some [] \<and>
   sub_marks (marked_headers ! 1) = marked_headers ! 1 \<and>
   split_chat_line (sub_marks (marked_headers ! 0)) = split_chat_line (marked_headers ! 0) \<and>
   read_messages (map sub_marks marked_headers) = read_messages marked_headers \<and>
   read_messages marked_headers =
     Inr [\<lparr>Date = Some (str ''01.01.23''), Time = Some (str ''10:00:00''),
           Person = Some (str ''Alice''),
           Message = Some (str ''Hello'' @ [10] @ str ''there'')\<rparr>]"
proof -
  have shape: "marked_headers = [marked_headers ! 0, marked_headers ! 1]"
    by (simp add: marked_headers_def)
  have hyp: "\<forall>l \<in> set marked_headers. sub_marks l \<noteq> l \<longrightarrow>
      is_header l \<and> Message (split_chat_line (strip l)) \<noteq> Some []"
    by (subst shape) (use marked_headers_lines in simp)
  have "read_messages (map sub_marks marked_headers) = read_messages marked_headers"
    using marks_ignored [of "marked_headers ! 0" marked_headers] hyp by blast
  moreover have "split_chat_line (sub_marks (marked_headers ! 0)) =
      split_chat_line (marked_headers ! 0)"
    using marks_ignored [of "marked_headers ! 0" marked_headers] by blast
  ultimately show ?thesis
    using marked_headers_lines marked_headers_read by simp
qed

section \<open>Filtering\<close>

lemma str_in_iff: "str_in sub s \<longleftrightarrow> (\<exists>a b. s = a @ sub @ b)"
proof (induction s)
  case Nil
  then show ?case by auto
next
  case (Cons c cs)
  show ?case
  proof
    assume "str_in sub (c # cs)"
    then consider "take (length sub) (c # cs) = sub" | "str_in sub cs" by auto
    then show "\<exists>a b. c # cs = a @ sub @ b"
    proof cases
      case 1
      then have "c # cs = [] @ sub @ drop (length sub) (c # cs)"
        by (metis append_Nil append_take_drop_id)
      then show ?thesis by blast
    next
      case 2
      then obtain a b where "cs = a @ sub @ b" using Cons.IH by blast
      then have "c # cs = (c # a) @ sub @ b" by simp
      then show ?thesis by blast
    qed
  next
    assume "\<exists>a b. c # cs = a @ sub @ b"
    then obtain a b where ab: "c # cs = a @ sub @ b" by blast
    show "str_in sub (c # cs)"
    proof (cases a)
      case Nil
      then have "take (length sub) (c # cs) = sub" using ab by simp
      then show ?thesis by simp
    next
      case (Cons x a')
      then have "cs = a' @ sub @ b" using ab by simp
      then have "str_in sub cs" using Cons.IH by blast
      then show ?thesis by simp
    qed
  qed
qed

lemma str_in_refl: "str_in s s"
  using str_in_iff [of s s] by (metis append_Nil append_Nil2)

lemma filter_by_no_filters: "filter_by field [] chat = Inr []"
  by (induction chat) simp_all

lemma any_in_Some: "any_in filters (Some s) = Inr (list_ex (\<lambda>f. str_in f s) filters)"
  by (induction filters) simp_all

lemma filter_by_populated:
  "\<forall>e \<in> set chat. field e \<noteq> None \<Longrightarrow>
   filter_by field filters chat =
     Inr (filter (\<lambda>e. list_ex (\<lambda>f. str_in f (the (field e))) filters) chat)"
proof (induction chat)
  case Nil
  then show ?case by simp
next
  case (Cons e chat)
  then obtain s where s: "field e = Some s" by auto
  from Cons have "filter_by field filters chat =
     Inr (filter (\<lambda>e. list_ex (\<lambda>f. str_in f (the (field e))) filters) chat)" by simp
  then show ?case using s by (simp add: any_in_Some)
qed

lemmas sample_defs =
  sample_chat_def mk_entry_def absent_entry_def str_def get_chat_len_def get_persons_def
  remove_person_def rename_person_def get_filtered_chat_def

text \<open>
  C10. Whatever the store and the mode \<open>by\<close>, \<open>get_filtered_chat\<close> with the empty list of
  filters returns the empty list and not the whole chat: \<^verbatim>\<open>any\<close> of no test is false.
  This holds also for a store with absent fields, since no containment test is evaluated.
\<close>

theorem get_filtered_chat_no_filters: "get_filtered_chat [] by chat = Inr []"
  by (cases "by") (simp_all add: get_filtered_chat_def filter_by_no_filters)

theorem get_filtered_chat_no_filters_witness:
  "get_filtered_chat [] By_Person sample_chat = Inr [] \<and>
   get_filtered_chat [] By_Date sample_chat = Inr [] \<and>
   get_filtered_chat [] By_Message [absent_entry] = Inr []"
  using get_filtered_chat_no_filters [of By_Person sample_chat]
    get_filtered_chat_no_filters [of By_Date sample_chat]
    get_filtered_chat_no_filters [of By_Message "[absent_entry]"]
  by simp

text \<open>
  C3. The claim asks that an entry whose selected field is \<^verbatim>\<open>None\<close> is left out of the
  result without an exception. The code evaluates \<^verbatim>\<open>filter_str in None\<close> for the first
  filter and raises \<^verbatim>\<open>TypeError\<close>: here at the store that holds the record
  \<open>split_chat_line\<close> returns for a line that is no header.
\<close>

theorem get_filtered_chat_absent_field_raises:
  "get_filtered_chat [str ''a''] By_Person [absent_entry] = Inl TypeError \<and>
   get_filtered_chat [str ''a''] By_Date [absent_entry] = Inl TypeError \<and>
   get_filtered_chat [str ''a''] By_Message [absent_entry] = Inl TypeError \<and>
   split_chat_line (str ''hello'') = absent_entry"
  by (simp add: get_filtered_chat_def absent_entry_def split_chat_line_def pattern_match_def
      sub_marks_def str_def Let_def)

section \<open>Mutations\<close>

text \<open>
  C7. \<open>remove_person name\<close> removes exactly the entries whose sender equals \<open>name\<close>: the
  number of entries goes down by the number of entries with that sender, the other
  entries stay in their order, an entry is in the new store if and only if it was in
  the old one with another sender (a sender that only contains \<open>name\<close> stays),
  \<open>get_persons\<close> of the new store does not contain \<open>name\<close>, and the store is unchanged
  when no entry has the sender \<open>name\<close>.
\<close>

theorem remove_person_exact:
  "get_chat_len chat =
     get_chat_len (remove_person name chat) + length (filter (\<lambda>e. Person e = Some name) chat) \<and>
   remove_person name chat = filter (\<lambda>e. Person e \<noteq> Some name) chat \<and>
   (\<forall>e. e \<in> set (remove_person name chat) \<longleftrightarrow> e \<in> set chat \<and> Person e \<noteq> Some name) \<and>
   name \<notin> get_persons (remove_person name chat) \<and>
   ((\<forall>e \<in> set chat. Person e \<noteq> Some name) \<longrightarrow> remove_person name chat = chat)"
proof -
  have "length chat = length (filter (\<lambda>e. Person e \<noteq> Some name) chat) +
      length (filter (\<lambda>e. Person e = Some name) chat)"
    using sum_length_filter_compl [of "\<lambda>e. Person e \<noteq> Some name" chat] by simp
  then have count: "get_chat_len chat =
     get_chat_len (remove_person name chat) + length (filter (\<lambda>e. Person e = Some name) chat)"
    by (simp add: get_chat_len_def remove_person_def)
  have mem: "\<forall>e. e \<in> set (remove_person name chat) \<longleftrightarrow> e \<in> set chat \<and> Person e \<noteq> Some name"
    by (simp add: remove_person_def)
  have senders: "name \<notin> get_persons (remove_person name chat)"
    by (auto simp: get_persons_def remove_person_def split: option.splits if_splits)
  have noop: "(\<forall>e \<in> set chat. Person e \<noteq> Some name) \<longrightarrow> remove_person name chat = chat"
    by (simp add: remove_person_def)
  have kept: "remove_person name chat = filter (\<lambda>e. Person e \<noteq> Some name) chat"
    by (simp add: remove_person_def)
  from count kept mem senders noop show ?thesis by blast
qed

theorem remove_person_exact_witness:
  "get_chat_len sample_chat = 3 \<and>
   get_chat_len (remove_person (str ''Bob'') sample_chat) = 1 \<and>
   str ''Bob'' \<notin> get_persons (remove_person (str ''Bob'') sample_chat) \<and>
   get_chat_len (remove_person (str ''Bo'') sample_chat) = 3 \<and>
   remove_person (str ''Bo'') sample_chat = sample_chat"
  using remove_person_exact [of sample_chat "str ''Bob''"]
    remove_person_exact [of sample_chat "str ''Bo''"]
  by (simp add: sample_defs)

text \<open>
  C8. \<open>rename_person old new\<close> keeps the number of entries and, at every position, the
  date, the time and the message; the sender at a position becomes \<open>new\<close> when it was
  equal to \<open>old\<close> and is unchanged otherwise.
\<close>

theorem rename_person_frame:
  "get_chat_len (rename_person old new chat) = get_chat_len chat \<and>
   (\<forall>i < length chat.
      Date (rename_person old new chat ! i) = Date (chat ! i) \<and>
      Time (rename_person old new chat ! i) = Time (chat ! i) \<and>
      Message (rename_person old new chat ! i) = Message (chat ! i) \<and>
      Person (rename_person old new chat ! i) =
        (if Person (chat ! i) = Some old then Some new else Person (chat ! i)))"
  by (simp add: rename_person_def get_chat_len_def)

theorem rename_person_frame_witness:
  "get_chat_len (rename_person (str ''Bob'') (str ''Rob'') sample_chat) = 3 \<and>
   rename_person (str ''Bob'') (str ''Rob'') sample_chat ! 0 =
     mk_entry ''01.01.23'' ''10:00:00'' ''Rob'' ''Hello'' \<and>
   rename_person (str ''Bob'') (str ''Rob'') sample_chat ! 1 =
     mk_entry ''01.01.23'' ''10:00:05'' ''Alice'' ''Hi!'' \<and>
   rename_person (str ''Bob'') (str ''Rob'') sample_chat ! 2 =
     mk_entry ''02.01.23'' ''09:30:00'' ''Rob'' ''Bye''"
  using rename_person_frame [of "str ''Bob''" "str ''Rob''" sample_chat]
  by (simp add: sample_defs)

section \<open>The stored entries\<close>

text \<open>
  C6. In every store obtained from the constructor by any sequence of \<open>remove_person\<close>
  and \<open>rename_person\<close>, every entry has all four fields present.
\<close>

theorem stored_entries_populated:
  "reachable chat \<Longrightarrow>
   \<forall>e \<in> set chat. Date e \<noteq> None \<and> Time e \<noteq> None \<and> Person e \<noteq> None \<and> Message e \<noteq> None"
proof (induction rule: reachable.induct)
  case (construct lines chat)
  then show ?case
    using read_messages_total [of lines] by (auto simp: list_all_iff populated_def)
next
  case (remove chat person)
  then show ?case by (simp add: remove_person_def)
next
  case (rename chat person new_name)
  then show ?case by (auto simp: rename_person_def)
qed

lemma sample_read_mutated:
  "rename_person (str ''Bob'') (str ''Rob'') (remove_person (str ''Alice'') sample_read) =
     [mk_entry ''01.01.23'' ''10:00:05'' ''Rob'' ''Hi!'']"
  by (simp add: sample_read_def sample_defs)

theorem stored_entries_populated_witness:
  "reachable (rename_person (str ''Bob'') (str ''Rob'') (remove_person (str ''Alice'') sample_read)) \<and>
   rename_person (str ''Bob'') (str ''Rob'') (remove_person (str ''Alice'') sample_read) =
     [mk_entry ''01.01.23'' ''10:00:05'' ''Rob'' ''Hi!''] \<and>
   list_all populated [mk_entry ''01.01.23'' ''10:00:05'' ''Rob'' ''Hi!'']"
proof -
  have "reachable sample_read"
    using sample_file_read by (rule reachable.construct)
  then have "reachable (remove_person (str ''Alice'') sample_read)"
    by (rule reachable.remove)
  then have r: "reachable
      (rename_person (str ''Bob'') (str ''Rob'') (remove_person (str ''Alice'') sample_read))"
    by (rule reachable.rename)
  show ?thesis
    using stored_entries_populated [OF r] r sample_read_mutated
    by (simp add: populated_def)
qed

section \<open>Renaming and filtering\<close>

lemma filter_by_renamed:
  "\<forall>e \<in> set chat. Person e \<noteq> None \<Longrightarrow>
   filter_by Person [new] (rename_person old new chat) =
     Inr (rename_person old new
       (filter (\<lambda>e. Person e = Some old \<or>
                     (case Person e of None \<Rightarrow> False | Some p \<Rightarrow> str_in new p)) chat))"
proof (induction chat)
  case Nil
  then show ?case by (simp add: rename_person_def)
next
  case (Cons e chat)
  then obtain p where p: "Person e = Some p" by auto
  have IH: "filter_by Person [new] (rename_person old new chat) =
     Inr (rename_person old new
       (filter (\<lambda>e. Person e = Some old \<or>
                     (case Person e of None \<Rightarrow> False | Some p \<Rightarrow> str_in new p)) chat))"
    using Cons by simp
  have unfold: "rename_person old new (e # chat) =
      (if Person e = Some old then e\<lparr>Person := Some new\<rparr> else e) # rename_person old new chat"
    by (simp add: rename_person_def)
  show ?case
  proof (cases "p = old")
    case True
    then show ?thesis
      using p IH by (simp add: unfold str_in_refl) (simp add: rename_person_def)
  next
    case False
    then show ?thesis
      using p IH by (simp add: unfold) (simp add: rename_person_def)
  qed
qed

lemma filter_sender_only:
  "\<forall>e \<in> set chat. \<forall>p. Person e = Some p \<and> p \<noteq> old \<longrightarrow> \<not> str_in new p \<Longrightarrow>
   filter (\<lambda>e. Person e = Some old \<or>
                 (case Person e of None \<Rightarrow> False | Some p \<Rightarrow> str_in new p)) chat =
   filter (\<lambda>e. Person e = Some old) chat"
proof (induction chat)
  case Nil
  then show ?case by simp
next
  case (Cons e chat)
  then show ?case by (cases "Person e") auto
qed

lemma rename_person_absent:
  "\<forall>e \<in> set chat. Person e \<noteq> Some old \<Longrightarrow> rename_person old new chat = chat"
  by (induction chat) (simp_all add: rename_person_def)

text \<open>
  C4, as the claim states it, fails: the filter tests containment, so it also returns
  the entries whose sender contains the new name without ever having been \<open>old\<close>. After
  renaming Bob to Al, filtering by Al returns the entry of Alice too.
\<close>

theorem rename_then_filter_counterexample:
  "get_filtered_chat [str ''Al''] By_Person (rename_person (str ''Bob'') (str ''Al'') sample_chat) =
     Inr [mk_entry ''01.01.23'' ''10:00:00'' ''Al'' ''Hello'',
          mk_entry ''01.01.23'' ''10:00:05'' ''Alice'' ''Hi!'',
          mk_entry ''02.01.23'' ''09:30:00'' ''Al'' ''Bye''] \<and>
   sample_chat ! 1 = mk_entry ''01.01.23'' ''10:00:05'' ''Alice'' ''Hi!'' \<and>
   Person (sample_chat ! 1) \<noteq> Some (str ''Bob'')"
  by (simp add: sample_defs)

text \<open>
  C4, amended. On a store whose entries all have a sender (every reachable store),
  \<open>rename_person old new\<close> followed by \<open>get_filtered_chat [new] By_Person\<close> returns, in
  their original order and with the new sender, the entries whose sender was \<open>old\<close>,
  together with the entries whose sender contains \<open>new\<close>; these are exactly the entries
  whose sender was \<open>old\<close> when no other sender of the store contains \<open>new\<close>. When no
  entry has the sender \<open>old\<close>, the renaming leaves the store unchanged.
\<close>

theorem rename_then_filter:
  assumes "\<forall>e \<in> set chat. Person e \<noteq> None"
  shows "get_filtered_chat [new] By_Person (rename_person old new chat) =
       Inr (rename_person old new
         (filter (\<lambda>e. Person e = Some old \<or>
                       (case Person e of None \<Rightarrow> False | Some p \<Rightarrow> str_in new p)) chat)) \<and>
     ((\<forall>e \<in> set chat. \<forall>p. Person e = Some p \<and> p \<noteq> old \<longrightarrow> \<not> str_in new p) \<longrightarrow>
        get_filtered_chat [new] By_Person (rename_person old new chat) =
          Inr (rename_person old new (filter (\<lambda>e. Person e = Some old) chat))) \<and>
     ((\<forall>e \<in> set chat. Person e \<noteq> Some old) \<longrightarrow> rename_person old new chat = chat)"
proof (intro conjI impI)
  show general: "get_filtered_chat [new] By_Person (rename_person old new chat) =
       Inr (rename_person old new
         (filter (\<lambda>e. Person e = Some old \<or>
                       (case Person e of None \<Rightarrow> False | Some p \<Rightarrow> str_in new p)) chat))"
    using filter_by_renamed [OF assms] by (simp add: get_filtered_chat_def)
  show "get_filtered_chat [new] By_Person (rename_person old new chat) =
          Inr (rename_person old new (filter (\<lambda>e. Person e = Some old) chat))"
    if "\<forall>e \<in> set chat. \<forall>p. Person e = Some p \<and> p \<noteq> old \<longrightarrow> \<not> str_in new p"
    using general filter_sender_only [OF that] by (simp only:)
  show "rename_person old new chat = chat" if "\<forall>e \<in> set chat. Person e \<noteq> Some old"
    using that by (rule rename_person_absent)
qed

lemma sample_chat_senders:
  "\<forall>e \<in> set sample_chat. Person e \<noteq> None"
  "\<forall>e \<in> set sample_chat. \<forall>p. Person e = Some p \<and> p \<noteq> str ''Bob'' \<longrightarrow>
      \<not> str_in (str ''Rob'') p"
  "\<forall>e \<in> set sample_chat. Person e \<noteq> Some (str ''Carol'')"
  "rename_person (str ''Bob'') (str ''Rob'')
      (filter (\<lambda>e. Person e = Some (str ''Bob'')) sample_chat) =
     [mk_entry ''01.01.23'' ''10:00:00'' ''Rob'' ''Hello'',
      mk_entry ''02.01.23'' ''09:30:00'' ''Rob'' ''Bye'']"
  by (simp_all add: sample_defs)

theorem rename_then_filter_witness:
  "list_all (\<lambda>e. Person e \<noteq> None) sample_chat \<and>
   get_filtered_chat [str ''Rob''] By_Person
       (rename_person (str ''Bob'') (str ''Rob'') sample_chat) =
     Inr [mk_entry ''01.01.23'' ''10:00:00'' ''Rob'' ''Hello'',
          mk_entry ''02.01.23'' ''09:30:00'' ''Rob'' ''Bye''] \<and>
   rename_person (str ''Carol'') (str ''Rob'') sample_chat = sample_chat"
proof -
  note pop = sample_chat_senders(1)
  have "get_filtered_chat [str ''Rob''] By_Person
       (rename_person (str ''Bob'') (str ''Rob'') sample_chat) =
     Inr (rename_person (str ''Bob'') (str ''Rob'')
      (filter (\<lambda>e. Person e = Some (str ''Bob'')) sample_chat))"
    using rename_then_filter [OF pop, of "str ''Rob''" "str ''Bob''"] sample_chat_senders(2)
    by blast
  moreover have "rename_person (str ''Carol'') (str ''Rob'') sample_chat = sample_chat"
    using rename_then_filter [OF pop, of "str ''Rob''" "str ''Carol''"] sample_chat_senders(3)
    by blast
  moreover have "list_all (\<lambda>e. Person e \<noteq> None) sample_chat"
    using pop by (simp only: list_all_iff)
  ultimately show ?thesis
    by (simp only: sample_chat_senders(4) simp_thms)
qed

end
